theory Spec2Isabelle
  imports Main
begin

section \<open>Water-sort solver: data model\<close>

text \<open>
  The solver of \<^verbatim>\<open>src/src/api/routes.ts\<close> (the part after the router, lines 79--360).
  A colour is a string, a vial is the list of its colours from bottom to top (the top is
  the last entry), a configuration is the list of its vials.  A \<^verbatim>\<open>Move\<close> is the pair
  \<open>(from, to)\<close>.  Numbers that the source may drive below zero (\<^verbatim>\<open>spaceInDest\<close>,
  \<^verbatim>\<open>unitsToPour\<close>) are integers.  Every \<^verbatim>\<open>throw\<close> of the source and every runtime
  exception it can run into is a value of \<open>error\<close>.
\<close>

type_synonym color = string
type_synonym vial = "color list"
type_synonym move = "nat \<times> nat"

record gameState =
  vials :: "vial list"
  moves :: "move list"

record moveWithColor =
  mfrom :: nat
  mto :: nat
  mcolor :: color
  munits :: int

datatype error = TypeError | InvalidMove | RangeError

definition MAX_VIAL_CAPACITY :: nat where
  "MAX_VIAL_CAPACITY = 4"

definition MAX_SEARCH_STATES :: nat where
  "MAX_SEARCH_STATES = 100000"

subsection \<open>JavaScript array primitives\<close>

text \<open>\<^verbatim>\<open>Array.prototype.join\<close>: the entries separated by \<open>sep\<close>; the empty array gives the
  empty string.\<close>

fun join :: "string \<Rightarrow> string list \<Rightarrow> string" where
  "join sep [] = []"
| "join sep [x] = x"
| "join sep (x # y # ys) = x @ sep @ join sep (y # ys)"

text \<open>\<^verbatim>\<open>Array.prototype.slice(start, end)\<close>: a negative index counts from the end, and both
  are clamped to the array.  \<^verbatim>\<open>slice(start)\<close> runs to the end of the array.  Note that
  \<^verbatim>\<open>-0\<close> is \<open>0\<close>: \<^verbatim>\<open>slice(0, -0)\<close> is empty and \<^verbatim>\<open>slice(-0)\<close> is the whole array.\<close>

definition slice :: "'a list \<Rightarrow> int \<Rightarrow> int \<Rightarrow> 'a list" where
  "slice xs start fin =
     (let len = int (length xs);
          k = (if start < 0 then max (len + start) 0 else min start len);
          final = (if fin < 0 then max (len + fin) 0 else min fin len)
      in take (nat (final - k)) (drop (nat k) xs))"

definition sliceFrom :: "'a list \<Rightarrow> int \<Rightarrow> 'a list" where
  "sliceFrom xs start = slice xs start (int (length xs))"

text \<open>\<^verbatim>\<open>Array.prototype.fill(c)\<close> overwrites every entry.\<close>

definition fill :: "'a list \<Rightarrow> 'a \<Rightarrow> 'a list" where
  "fill xs c = map (\<lambda>_. c) xs"

text \<open>\<^verbatim>\<open>xs.map((x, index) => ...)\<close>: the entries paired with their indices.\<close>

definition indexed :: "'a list \<Rightarrow> ('a \<times> nat) list" where
  "indexed xs = zip xs [0..<length xs]"

section \<open>State model\<close>

definition toString :: "gameState \<Rightarrow> string" where
  "toString state = join ''|'' (map (join '','') (vials state))"

definition clone :: "gameState \<Rightarrow> gameState" where
  "clone state = \<lparr>vials = map (\<lambda>vial. vial) (vials state), moves = moves state\<rparr>"

text \<open>\<^verbatim>\<open>getTotalColorCounts\<close>: the accumulator is the object literal \<^verbatim>\<open>{}\<close>, so it inherits
  from \<^verbatim>\<open>Object.prototype\<close>.  Its own properties are a finite map from names to values.  A
  name that it does not own is read from the prototype: eleven names are native functions
  there, \<^verbatim>\<open>__proto__\<close> is an accessor whose getter returns the prototype object itself, and
  every other name reads as \<^verbatim>\<open>undefined\<close>.\<close>

datatype jsValue = Undefined | Number nat | Text string | NativeFunction string | ObjectPrototype

type_synonym jsObject = "string \<rightharpoonup> jsValue"

definition prototypeFunctions :: "string list" where
  "prototypeFunctions =
     [''constructor'', ''__defineGetter__'', ''__defineSetter__'', ''hasOwnProperty'',
      ''__lookupGetter__'', ''__lookupSetter__'', ''isPrototypeOf'', ''propertyIsEnumerable'',
      ''toString'', ''valueOf'', ''toLocaleString'']"

text \<open>The names of all properties of \<^verbatim>\<open>Object.prototype\<close>.\<close>

definition prototypeNames :: "string list" where
  "prototypeNames = ''__proto__'' # prototypeFunctions"

text \<open>The read \<^verbatim>\<open>obj[name]\<close>.  No write creates an own property \<^verbatim>\<open>__proto__\<close>, so that
  name is always read through the accessor.\<close>

definition getProperty :: "jsObject \<Rightarrow> string \<Rightarrow> jsValue" where
  "getProperty obj name =
     (if name = ''__proto__'' then ObjectPrototype
      else case obj name of
             Some v \<Rightarrow> v
           | None \<Rightarrow> if name \<in> set prototypeFunctions then NativeFunction name else Undefined)"

text \<open>The write \<^verbatim>\<open>obj[name] = v\<close> of a number or a string \<open>v\<close> (the only values the source
  writes): the setter of \<^verbatim>\<open>__proto__\<close> ignores a value that is neither an object nor
  \<^verbatim>\<open>null\<close>; any other name becomes an own property, also when the prototype has that
  name.\<close>

definition setProperty :: "jsObject \<Rightarrow> string \<Rightarrow> jsValue \<Rightarrow> jsObject" where
  "setProperty obj name v = (if name = ''__proto__'' then obj else obj(name \<mapsto> v))"

text \<open>The text to which a native function of the prototype converts
  (\<^verbatim>\<open>Object.prototype.constructor\<close> is the function \<^verbatim>\<open>Object\<close>).\<close>

definition functionText :: "string \<Rightarrow> string" where
  "functionText name =
     ''function '' @ (if name = ''constructor'' then ''Object'' else name)
       @ ''() { [native code] }''"

text \<open>The expression \<^verbatim>\<open>(x || 0) + 1\<close>: \<^verbatim>\<open>undefined\<close>, \<open>0\<close> and the empty string are falsy;
  a number is incremented; to a string the text \<^verbatim>\<open>1\<close> is appended; a function and an
  object are first converted to their text.\<close>

fun orZeroPlusOne :: "jsValue \<Rightarrow> jsValue" where
  "orZeroPlusOne Undefined = Number 1"
| "orZeroPlusOne (Number n) = Number (n + 1)"
| "orZeroPlusOne (Text s) = (if s = [] then Number 1 else Text (s @ ''1''))"
| "orZeroPlusOne (NativeFunction name) = Text (functionText name @ ''1'')"
| "orZeroPlusOne ObjectPrototype = Text ''[object Object]1''"

text \<open>The conversion to a number that \<^verbatim>\<open>Math.min\<close> applies to its arguments; \<open>None\<close> is
  \<^verbatim>\<open>NaN\<close>.  \<^verbatim>\<open>undefined\<close>, a native function and the prototype object convert to
  \<^verbatim>\<open>NaN\<close>, and so does every text that \<open>getTotalColorCounts\<close> stores: it begins with
  \<^verbatim>\<open>function\<close> (lemma \<open>getTotalColorCounts_values\<close>).\<close>

fun toNumber :: "jsValue \<Rightarrow> nat option" where
  "toNumber (Number n) = Some n"
| "toNumber Undefined = None"
| "toNumber (Text s) = None"
| "toNumber (NativeFunction name) = None"
| "toNumber ObjectPrototype = None"

definition countColor :: "jsObject \<Rightarrow> color \<Rightarrow> jsObject" where
  "countColor vialCounts color =
     setProperty vialCounts color (orZeroPlusOne (getProperty vialCounts color))"

definition getTotalColorCounts :: "vial list \<Rightarrow> jsObject" where
  "getTotalColorCounts vs = foldl (\<lambda>counts vial. foldl countColor counts vial) Map.empty vs"

section \<open>Move rules\<close>

text \<open>\<^verbatim>\<open>getTopColorSequence\<close>: the reduce runs over the whole reversed vial and adds one for
  every entry equal to the top colour.\<close>

definition getTopColorSequence :: "vial \<Rightarrow> (color \<times> int) option" where
  "getTopColorSequence vial =
     (if length vial = 0 then None
      else let topColor = last vial;
               count = foldl (\<lambda>count color. if color = topColor then count + 1 else count)
                         0 (rev vial)
           in Some (topColor, count))"

text \<open>\<^verbatim>\<open>isValidMove\<close>: reading \<^verbatim>\<open>.length\<close> of a vial that is not there is a
  \<^verbatim>\<open>TypeError\<close>; the checks run in the order of the source.\<close>

definition isValidMove :: "gameState \<Rightarrow> nat \<Rightarrow> nat \<Rightarrow> error + bool" where
  "isValidMove state from to =
     (if length (vials state) \<le> from then Inl TypeError
      else let sourceVial = vials state ! from in
        if length sourceVial = 0 then Inr False
        else if from = to then Inr False
        else if length (vials state) \<le> to then Inl TypeError
        else let destVial = vials state ! to in
          if length destVial \<ge> MAX_VIAL_CAPACITY then Inr False
          else if length destVial = 0 then Inr True
          else Inr (last sourceVial = last destVial))"

text \<open>\<^verbatim>\<open>executeMove\<close>: the source vial keeps \<^verbatim>\<open>vial.slice(0, -unitsToPour)\<close>; the
  destination becomes \<^verbatim>\<open>[...vial, ...vial.slice(-unitsToPour).fill(color)]\<close>, where
  \<^verbatim>\<open>vial\<close> is the destination vial itself.\<close>

definition executeMove :: "gameState \<Rightarrow> nat \<Rightarrow> nat \<Rightarrow> error + gameState" where
  "executeMove state from to =
     (case isValidMove state from to of
        Inl e \<Rightarrow> Inl e
      | Inr valid \<Rightarrow>
          if \<not> valid then Inl InvalidMove
          else
            let sourceVial = vials state ! from;
                destVial = vials state ! to
            in (case getTopColorSequence sourceVial of
                 None \<Rightarrow> Inr (clone state)
               | Some (topColor, count) \<Rightarrow>
                   let spaceInDest = int MAX_VIAL_CAPACITY - int (length destVial);
                       unitsToPour = min count spaceInDest;
                       newVials = map (\<lambda>(vial, index).
                           if index = from then slice vial 0 (- unitsToPour)
                           else if index = to
                             then vial @ fill (sliceFrom vial (- unitsToPour)) topColor
                           else vial) (indexed (vials state))
                   in Inr \<lparr>vials = newVials, moves = moves state @ [(from, to)]\<rparr>))"

text \<open>Callbacks that may throw: \<^verbatim>\<open>filter\<close>, \<^verbatim>\<open>map\<close> and \<^verbatim>\<open>reduce\<close> stop at the
  first exception.\<close>

fun filterE :: "('a \<Rightarrow> error + bool) \<Rightarrow> 'a list \<Rightarrow> error + 'a list" where
  "filterE p [] = Inr []"
| "filterE p (x # xs) =
     (case p x of
        Inl e \<Rightarrow> Inl e
      | Inr b \<Rightarrow> (case filterE p xs of
                   Inl e \<Rightarrow> Inl e
                 | Inr ys \<Rightarrow> Inr (if b then x # ys else ys)))"

fun mapE :: "('a \<Rightarrow> error + 'b) \<Rightarrow> 'a list \<Rightarrow> error + 'b list" where
  "mapE f [] = Inr []"
| "mapE f (x # xs) =
     (case f x of
        Inl e \<Rightarrow> Inl e
      | Inr y \<Rightarrow> (case mapE f xs of
                   Inl e \<Rightarrow> Inl e
                 | Inr ys \<Rightarrow> Inr (y # ys)))"

fun reduceE :: "('b \<Rightarrow> 'a \<Rightarrow> error + 'b) \<Rightarrow> 'b \<Rightarrow> 'a list \<Rightarrow> error + 'b" where
  "reduceE f acc [] = Inr acc"
| "reduceE f acc (x # xs) =
     (case f acc x of
        Inl e \<Rightarrow> Inl e
      | Inr acc' \<Rightarrow> reduceE f acc' xs)"

text \<open>\<^verbatim>\<open>generateNextStates\<close>: all pairs \<open>(from, to)\<close>, ascending in \<open>from\<close>, then in
  \<open>to\<close>; the valid ones, each executed.\<close>

definition generateNextStates :: "gameState \<Rightarrow> error + gameState list" where
  "generateNextStates state =
     (let n = length (vials state);
          pairs = concat (map (\<lambda>from. map (\<lambda>to. (from, to)) [0..<n]) [0..<n])
      in case filterE (\<lambda>(from, to). isValidMove state from to) pairs of
           Inl e \<Rightarrow> Inl e
         | Inr valid \<Rightarrow> mapE (\<lambda>(from, to). executeMove state from to) valid)"

section \<open>Goal checker\<close>

text \<open>The \<^verbatim>\<open>every\<close> that fills \<^verbatim>\<open>colorToVial\<close>: it stops at the first vial whose colour
  is already a key.  The \<^verbatim>\<open>Map\<close> keeps its entries in insertion order.\<close>

fun uniqueColors :: "(vial \<times> nat) list \<Rightarrow> (color \<times> nat) list \<Rightarrow> bool \<times> (color \<times> nat) list" where
  "uniqueColors [] colorToVial = (True, colorToVial)"
| "uniqueColors ((vial, index) # rest) colorToVial =
     (let color = hd vial in
      if color \<in> set (map fst colorToVial) then (False, colorToVial)
      else uniqueColors rest (colorToVial @ [(color, index)]))"

text \<open>\<^verbatim>\<open>isSolved\<close>.  \<^verbatim>\<open>Math.min\<close> of \<^verbatim>\<open>NaN\<close> and the capacity is \<^verbatim>\<open>NaN\<close> (\<open>None\<close>), which
  \<^verbatim>\<open>===\<close> makes different from every length.\<close>

definition isSolved :: "gameState \<Rightarrow> bool \<Rightarrow> bool" where
  "isSolved state strictMode =
     (let basicCheck = list_all (\<lambda>vial.
            length vial = 0 \<or> list_all (\<lambda>color. color = hd vial) vial) (vials state)
      in if \<not> basicCheck then False
         else if \<not> strictMode then True
         else
           let nonEmptyVials = filter (\<lambda>(vial, index). length vial > 0) (indexed (vials state));
               (hasUniqueColors, colorToVial) = uniqueColors nonEmptyVials []
           in if \<not> hasUniqueColors then False
              else
                let colorCounts = getTotalColorCounts (vials state)
                in list_all (\<lambda>(color, vialIndex).
                     let vial = vials state ! vialIndex;
                         expectedCount = map_option (\<lambda>n. min n MAX_VIAL_CAPACITY)
                                           (toNumber (getProperty colorCounts color))
                     in Some (length vial) = expectedCount) colorToVial)"

section \<open>Move annotator\<close>

text \<open>One step of the \<^verbatim>\<open>reduce\<close> of \<^verbatim>\<open>enrichMoves\<close>.  \<^verbatim>\<open>Array(unitsToPour)\<close> is a
  \<^verbatim>\<open>RangeError\<close> for a negative length; it is evaluated when the map reaches the
  destination index.\<close>

definition enrichStep ::
  "moveWithColor list \<times> vial list \<Rightarrow> move \<Rightarrow> error + (moveWithColor list \<times> vial list)" where
  "enrichStep acc mv =
     (case acc of (ms, vs) \<Rightarrow> case mv of (from, to) \<Rightarrow>
        if length vs \<le> from then Inl TypeError
        else
          let sourceVial = vs ! from in
          if length sourceVial = 0 then Inr (ms, vs)
          else
            let topColor = last sourceVial;
                count = foldl (\<lambda>count color. if color = topColor then count + 1 else count)
                          0 (rev sourceVial)
            in if length vs \<le> to then Inl TypeError
               else
                 let destVial = vs ! to;
                     spaceInDest = int MAX_VIAL_CAPACITY - int (length destVial);
                     unitsToPour = min count spaceInDest
                 in if from \<noteq> to \<and> unitsToPour < 0 then Inl RangeError
                    else
                      let newVials = map (\<lambda>(vial, index).
                            if index = from then slice vial 0 (- unitsToPour)
                            else if index = to
                              then vial @ replicate (nat unitsToPour) topColor
                            else vial) (indexed vs)
                      in Inr (ms @ [\<lparr>mfrom = from, mto = to, mcolor = topColor,
                                      munits = unitsToPour\<rparr>], newVials))"

definition enrichMoves :: "move list \<Rightarrow> vial list \<Rightarrow> error + moveWithColor list" where
  "enrichMoves ms initialVials =
     (case reduceE enrichStep ([], map (\<lambda>vial. vial) initialVials) ms of
        Inl e \<Rightarrow> Inl e
      | Inr acc \<Rightarrow> Inr (fst acc))"

section \<open>Search engine\<close>

text \<open>The \<^verbatim>\<open>find\<close> of \<^verbatim>\<open>processState\<close> with its effects: every state it looks at is
  marked visited and queued, and it stops at the first solved one.\<close>

fun findSolved ::
  "bool \<Rightarrow> gameState list \<Rightarrow> string set \<Rightarrow> gameState list
     \<Rightarrow> gameState option \<times> string set \<times> gameState list" where
  "findSolved strictMode [] visited queue = (None, visited, queue)"
| "findSolved strictMode (nextState # rest) visited queue =
     (let stateStr = toString nextState;
          visited' = insert stateStr visited;
          queue' = queue @ [nextState]
      in if isSolved nextState strictMode then (Some nextState, visited', queue')
         else findSolved strictMode rest visited' queue')"

text \<open>\<^verbatim>\<open>processState\<close>: the \<^verbatim>\<open>filter\<close> on \<^verbatim>\<open>visited\<close> runs over all next states
  before the \<^verbatim>\<open>find\<close> adds any of them.\<close>

definition processState ::
  "vial list \<Rightarrow> bool \<Rightarrow> gameState \<Rightarrow> string set \<Rightarrow> gameState list
     \<Rightarrow> error + (moveWithColor list option \<times> string set \<times> gameState list)" where
  "processState initialVials strictMode state visited queue =
     (case generateNextStates state of
        Inl e \<Rightarrow> Inl e
      | Inr nextStates \<Rightarrow>
          (case findSolved strictMode
                  (filter (\<lambda>nextState. toString nextState \<notin> visited) nextStates)
                  visited queue of
             (None, visited', queue') \<Rightarrow> Inr (None, visited', queue')
           | (Some solution, visited', queue') \<Rightarrow>
               (case enrichMoves (moves solution) initialVials of
                  Inl e \<Rightarrow> Inl e
                | Inr enriched \<Rightarrow> Inr (Some enriched, visited', queue'))))"

text \<open>The main loop.  It returns the outcome together with \<^verbatim>\<open>statesExplored\<close>, the
  number of states dequeued when the loop is left.\<close>

function bfsLoop ::
  "vial list \<Rightarrow> bool \<Rightarrow> gameState list \<Rightarrow> string set \<Rightarrow> nat
     \<Rightarrow> (error + moveWithColor list option) \<times> nat" where
  "bfsLoop initialVials strictMode queue visited statesExplored =
     (if queue \<noteq> [] \<and> statesExplored < MAX_SEARCH_STATES then
        (case processState initialVials strictMode (hd queue) visited (tl queue) of
           Inl e \<Rightarrow> (Inl e, statesExplored + 1)
         | Inr (Some solution, visited', queue') \<Rightarrow> (Inr (Some solution), statesExplored + 1)
         | Inr (None, visited', queue') \<Rightarrow>
             bfsLoop initialVials strictMode queue' visited' (statesExplored + 1))
      else (Inr None, statesExplored))"
  by pat_completeness auto
termination
  by (relation "measure (\<lambda>(initialVials, strictMode, queue, visited, statesExplored).
        MAX_SEARCH_STATES - statesExplored)") auto

definition solveLoop :: "vial list \<Rightarrow> bool \<Rightarrow> (error + moveWithColor list option) \<times> nat" where
  "solveLoop initialVials strictMode =
     (let initialState = \<lparr>vials = map (\<lambda>v. v) initialVials, moves = []\<rparr>
      in if isSolved initialState strictMode then (Inr (Some []), 0)
         else bfsLoop initialVials strictMode [initialState] {toString initialState} 0)"

definition solvePuzzle :: "vial list \<Rightarrow> bool \<Rightarrow> error + moveWithColor list option" where
  "solvePuzzle initialVials strictMode = fst (solveLoop initialVials strictMode)"

section \<open>Move sequences and the search without the annotation\<close>

text \<open>A sequence of moves applied with \<open>executeMove\<close>; it fails at the first move that
  is not valid.\<close>

fun executeMoves :: "gameState \<Rightarrow> move list \<Rightarrow> error + gameState" where
  "executeMoves state [] = Inr state"
| "executeMoves state ((from, to) # rest) =
     (case executeMove state from to of
        Inl e \<Rightarrow> Inl e
      | Inr state' \<Rightarrow> executeMoves state' rest)"

text \<open>What \<open>executeMove\<close> computes on a valid move: \<open>pourUnits\<close> is \<^verbatim>\<open>unitsToPour\<close>,
  \<open>pourVials\<close> is \<^verbatim>\<open>newVials\<close> (lemma \<open>executeMove_valid\<close> below).\<close>

definition pourUnits :: "vial list \<Rightarrow> nat \<Rightarrow> nat \<Rightarrow> nat" where
  "pourUnits vs from to =
     min (count_list (vs ! from) (last (vs ! from))) (MAX_VIAL_CAPACITY - length (vs ! to))"

definition pourVials :: "vial list \<Rightarrow> nat \<Rightarrow> nat \<Rightarrow> vial list" where
  "pourVials vs from to =
     (let u = pourUnits vs from to
      in vs[from := take (length (vs ! from) - u) (vs ! from),
            to := vs ! to @ replicate (min u (length (vs ! to))) (last (vs ! from))])"

text \<open>The states \<open>generateNextStates\<close> returns (lemma \<open>generateNextStates_eq\<close> below).\<close>

definition allPairs :: "nat \<Rightarrow> (nat \<times> nat) list" where
  "allPairs n = concat (map (\<lambda>from. map (\<lambda>to. (from, to)) [0..<n]) [0..<n])"

definition nextStates :: "gameState \<Rightarrow> gameState list" where
  "nextStates state =
     map (\<lambda>(from, to). \<lparr>vials = pourVials (vials state) from to,
                          moves = moves state @ [(from, to)]\<rparr>)
       (filter (\<lambda>(from, to). isValidMove state from to = Inr True)
          (allPairs (length (vials state))))"

text \<open>The loop of \<open>solvePuzzle\<close> up to the call of \<open>enrichMoves\<close>: it returns the solved
  state that the search finds, whose \<open>moves\<close> are the raw move sequence (lemma
  \<open>bfsLoop_searchLoop\<close> below).\<close>

function searchLoop ::
  "bool \<Rightarrow> gameState list \<Rightarrow> string set \<Rightarrow> nat \<Rightarrow> gameState option \<times> nat" where
  "searchLoop strictMode queue visited statesExplored =
     (if queue \<noteq> [] \<and> statesExplored < MAX_SEARCH_STATES then
        (case findSolved strictMode
                (filter (\<lambda>nextState. toString nextState \<notin> visited) (nextStates (hd queue)))
                visited (tl queue) of
           (Some solution, visited', queue') \<Rightarrow> (Some solution, statesExplored + 1)
         | (None, visited', queue') \<Rightarrow>
             searchLoop strictMode queue' visited' (statesExplored + 1))
      else (None, statesExplored))"
  by pat_completeness auto
termination
  by (relation "measure (\<lambda>(strictMode, queue, visited, statesExplored).
        MAX_SEARCH_STATES - statesExplored)") auto

definition rawSolution :: "vial list \<Rightarrow> bool \<Rightarrow> move list option" where
  "rawSolution initialVials strictMode =
     (let initialState = \<lparr>vials = initialVials, moves = []\<rparr>
      in if isSolved initialState strictMode then Some []
         else map_option moves
                (fst (searchLoop strictMode [initialState] {toString initialState} 0)))"

text \<open>Replaying an annotated sequence, in the words of the specification: each
  annotated move transfers exactly its \<open>units\<close> entries of its colour from vial \<open>from\<close> to
  vial \<open>to\<close>.\<close>

definition replayAnnotatedMove :: "vial list \<Rightarrow> moveWithColor \<Rightarrow> vial list" where
  "replayAnnotatedMove vs m =
     vs[mfrom m := take (length (vs ! mfrom m) - nat (munits m)) (vs ! mfrom m),
        mto m := vs ! mto m @ replicate (nat (munits m)) (mcolor m)]"

definition replayAnnotated :: "vial list \<Rightarrow> moveWithColor list \<Rightarrow> vial list" where
  "replayAnnotated vs ms = foldl replayAnnotatedMove vs ms"









text \<open>The total count of a colour over all vials, in the words of the specification.\<close>

definition totalCountOfColor :: "vial list \<Rightarrow> color \<Rightarrow> nat" where
  "totalCountOfColor vs c = sum_list (map (\<lambda>vial. count_list vial c) vs)"

text \<open>What \<open>getTotalColorCounts\<close> stores under a name: a number under a name that the
  prototype does not have, a text that begins with \<^verbatim>\<open>function\<close> under the name of a
  function of the prototype, and nothing under \<^verbatim>\<open>__proto__\<close>.\<close>

fun storedValue :: "string \<Rightarrow> jsValue \<Rightarrow> bool" where
  "storedValue c (Number n) = (c \<notin> set prototypeNames)"
| "storedValue c (Text s) = (c \<in> set prototypeFunctions \<and> take 9 s = ''function '')"
| "storedValue c Undefined = False"
| "storedValue c (NativeFunction name) = False"
| "storedValue c ObjectPrototype = False"

text \<open>The outcome of \<open>solvePuzzle\<close> for what the search finds: \<open>enrichMoves\<close> on the
  moves of the solved state.\<close>

definition annotateFound ::
  "vial list \<Rightarrow> gameState option \<times> nat \<Rightarrow> (error + moveWithColor list option) \<times> nat" where
  "annotateFound initialVials r =
     (case r of
        (None, k) \<Rightarrow> (Inr None, k)
      | (Some solution, k) \<Rightarrow>
          (case enrichMoves (moves solution) initialVials of
             Inl e \<Rightarrow> (Inl e, k)
           | Inr enriched \<Rightarrow> (Inr (Some enriched), k)))"

declare bfsLoop.simps [simp del] searchLoop.simps [simp del]

section \<open>Properties of the move rules\<close>

lemma count_fold:
  "foldl (\<lambda>count color. if color = c then count + 1 else count) (n::int) xs
     = n + int (count_list xs c)"
  by (induction xs arbitrary: n) auto

lemma getTopColorSequence_eq:
  "getTopColorSequence vial =
     (if vial = [] then None else Some (last vial, int (count_list vial (last vial))))"
  by (simp add: getTopColorSequence_def Let_def count_fold)

text \<open>
  Claim C3.  For a non-empty vial the count returned by \<open>getTopColorSequence\<close> should
  be the length of the contiguous run at the top.  On the vial red, blue, red the run at
  the top has length 1, and the function returns 2: it counts every entry of the top
  colour, also below an entry of another colour.
\<close>

theorem getTopColorSequence_counts_all:
  "getTopColorSequence [''red'', ''blue'', ''red''] = Some (''red'', 2)"
  by (simp add: getTopColorSequence_def)

lemma slice_drop_top:
  "1 \<le> u \<Longrightarrow> slice xs 0 (- u) = take (length xs - nat u) xs"
  by (auto simp: slice_def Let_def max_def nat_diff_distrib')

lemma sliceFrom_top:
  "1 \<le> u \<Longrightarrow> sliceFrom xs (- u) = drop (length xs - nat u) xs"
  by (auto simp: sliceFrom_def slice_def Let_def max_def nat_diff_distrib')

lemma fill_replicate: "fill xs c = replicate (length xs) c"
  by (simp add: fill_def map_replicate_const)

lemma map_indexed_nth:
  "i < length xs \<Longrightarrow> map f (indexed xs) ! i = f (xs ! i, i)"
  by (simp add: indexed_def)

lemma length_indexed [simp]: "length (indexed xs) = length xs"
  by (simp add: indexed_def)

lemma count_last_pos: "xs \<noteq> [] \<Longrightarrow> 1 \<le> count_list xs (last xs)"
  by (metis One_nat_def Suc_leI count_list_0_iff last_in_set neq0_conv)

lemma isValidMove_True_iff:
  "isValidMove state from to = Inr True \<longleftrightarrow>
     from < length (vials state) \<and> to < length (vials state) \<and> from \<noteq> to \<and>
     vials state ! from \<noteq> [] \<and> length (vials state ! to) < MAX_VIAL_CAPACITY \<and>
     (vials state ! to = [] \<or> last (vials state ! from) = last (vials state ! to))"
  by (auto simp: isValidMove_def Let_def)

lemma indexed_nth [simp]: "i < length xs \<Longrightarrow> indexed xs ! i = (xs ! i, i)"
  by (simp add: indexed_def)

lemma length_sliceFrom_top:
  "1 \<le> u \<Longrightarrow> length (sliceFrom xs (- u)) = min (nat u) (length xs)"
  by (simp add: sliceFrom_top)

lemma executeMove_valid:
  assumes "isValidMove state from to = Inr True"
  shows "executeMove state from to =
           Inr \<lparr>vials = pourVials (vials state) from to, moves = moves state @ [(from, to)]\<rparr>"
proof -
  let ?vs = "vials state"
  let ?src = "?vs ! from" and ?dst = "?vs ! to"
  let ?c = "last ?src"
  from assms have rng: "from < length ?vs" "to < length ?vs" "from \<noteq> to"
    and ne: "?src \<noteq> []" and cap: "length ?dst < MAX_VIAL_CAPACITY"
    by (simp_all add: isValidMove_True_iff)
  define u where "u = min (int (count_list ?src ?c)) (int MAX_VIAL_CAPACITY - int (length ?dst))"
  have u1: "1 \<le> u" using count_last_pos[OF ne] cap by (simp add: u_def)
  have un: "nat u = pourUnits ?vs from to"
    using cap unfolding pourUnits_def min_def u_def by (auto simp: nat_diff_distrib')
  have "map (\<lambda>(vial, index).
           if index = from then slice vial 0 (- u)
           else if index = to then vial @ fill (sliceFrom vial (- u)) ?c
           else vial) (indexed ?vs) = pourVials ?vs from to" (is "?l = ?r")
  proof (rule nth_equalityI)
    show "length ?l = length ?r" by (simp add: pourVials_def Let_def)
  next
    fix i assume "i < length ?l"
    then have i: "i < length ?vs" by simp
    show "?l ! i = ?r ! i"
      using i rng
      by (simp add: pourVials_def Let_def slice_drop_top[OF u1] fill_replicate
            length_sliceFrom_top[OF u1] un)
  qed
  then show ?thesis
    unfolding u_def using assms ne
    by (simp add: executeMove_def getTopColorSequence_eq Let_def)
qed


text \<open>
  Claim C8.  For indices in range and a destination vial within the capacity of the data
  model, \<open>isValidMove\<close> is false when \<open>from = to\<close>, false when the source vial is
  empty, false when the destination vial holds 4 entries, true when the destination vial
  is empty, and otherwise true exactly when the top colours of the two vials are equal.
\<close>

theorem isValidMove_spec:
  assumes "from < length (vials state)" and "to < length (vials state)"
    and "length (vials state ! to) \<le> 4"
  shows "isValidMove state from to = Inr
           (if from = to then False
            else if vials state ! from = [] then False
            else if length (vials state ! to) = 4 then False
            else if vials state ! to = [] then True
            else last (vials state ! from) = last (vials state ! to))"
  using assms by (auto simp: isValidMove_def Let_def MAX_VIAL_CAPACITY_def)

theorem isValidMove_spec_witness:
  "(0::nat) < length (vials \<lparr>vials = [[''red'', ''blue''], [''blue'']], moves = []\<rparr>)
   \<and> (1::nat) < length (vials \<lparr>vials = [[''red'', ''blue''], [''blue'']], moves = []\<rparr>)
   \<and> length (vials \<lparr>vials = [[''red'', ''blue''], [''blue'']], moves = []\<rparr> ! 1) \<le> 4
   \<and> isValidMove \<lparr>vials = [[''red'', ''blue''], [''blue'']], moves = []\<rparr> 0 1 = Inr True"
  using isValidMove_spec [of 0 "\<lparr>vials = [[''red'', ''blue''], [''blue'']], moves = []\<rparr>" 1]
  by simp

text \<open>
  Claim C6.  On a valid move \<open>executeMove\<close> appends to the destination vial
  \<open>min unitsToPour (length of the destination)\<close> entries of the top colour, where
  \<open>unitsToPour = min count (4 - length of the destination)\<close>, and removes
  \<open>unitsToPour\<close> entries from the source vial; an empty destination vial stays
  empty.
\<close>

theorem executeMove_appends_min_dest_length:
  assumes "isValidMove state from to = Inr True"
  shows "\<exists>topColor count state'.
           getTopColorSequence (vials state ! from) = Some (topColor, count) \<and>
           executeMove state from to = Inr state' \<and>
           (let destVial = vials state ! to;
                sourceVial = vials state ! from;
                unitsToPour = min count (4 - int (length destVial))
            in vials state' ! to =
                 destVial @ replicate (nat (min unitsToPour (int (length destVial)))) topColor
             \<and> vials state' ! from = take (length sourceVial - nat unitsToPour) sourceVial
             \<and> length (vials state' ! from) + nat unitsToPour = length sourceVial
             \<and> (destVial = [] \<longrightarrow> vials state' ! to = []))"
proof -
  let ?vs = "vials state"
  from assms have rng: "from < length ?vs" "to < length ?vs" "from \<noteq> to"
    and ne: "?vs ! from \<noteq> []" and cap: "length (?vs ! to) < MAX_VIAL_CAPACITY"
    by (simp_all add: isValidMove_True_iff)
  let ?c = "last (?vs ! from)"
  let ?n = "count_list (?vs ! from) ?c"
  have top: "getTopColorSequence (?vs ! from) = Some (?c, int ?n)"
    using ne by (simp add: getTopColorSequence_eq)
  have u: "nat (min (int ?n) (4 - int (length (?vs ! to)))) = pourUnits ?vs from to"
    using cap unfolding pourUnits_def min_def MAX_VIAL_CAPACITY_def by auto
  have le: "pourUnits ?vs from to \<le> length (?vs ! from)"
    unfolding pourUnits_def using count_le_length[of "?vs ! from" ?c] by simp
  have m: "nat (min (min (int ?n) (4 - int (length (?vs ! to)))) (int (length (?vs ! to))))
             = min (pourUnits ?vs from to) (length (?vs ! to))"
    using cap unfolding pourUnits_def min_def MAX_VIAL_CAPACITY_def by auto
  show ?thesis
    using rng le
    by (simp add: executeMove_valid[OF assms] top Let_def u m pourVials_def)
qed

theorem executeMove_appends_min_dest_length_witness:
  "isValidMove \<lparr>vials = [[''red'', ''blue'', ''blue''], [''blue'']], moves = []\<rparr> 0 1 = Inr True
   \<and> executeMove \<lparr>vials = [[''red'', ''blue'', ''blue''], [''blue'']], moves = []\<rparr> 0 1
       = Inr \<lparr>vials = [[''red''], [''blue'', ''blue'']], moves = [(0, 1)]\<rparr>"
  using executeMove_appends_min_dest_length
    [of "\<lparr>vials = [[''red'', ''blue'', ''blue''], [''blue'']], moves = []\<rparr>" 0 1]
  by (simp add: executeMove_def isValidMove_def getTopColorSequence_def MAX_VIAL_CAPACITY_def
        indexed_def slice_def sliceFrom_def fill_def Let_def)

text \<open>
  Claim C1.  On a valid move \<open>executeMove\<close> should append exactly \<open>units\<close> entries of
  the poured colour to the destination vial.  Pouring the one red entry of vial 0 into
  the empty vial 1 has \<open>units = 1\<close>, and the state returned has both vials empty.
\<close>

theorem executeMove_loses_units:
  "isValidMove \<lparr>vials = [[''red''], []], moves = []\<rparr> 0 1 = Inr True
   \<and> executeMove \<lparr>vials = [[''red''], []], moves = []\<rparr> 0 1
       = Inr \<lparr>vials = [[], []], moves = [(0, 1)]\<rparr>"
  by (simp add: executeMove_def isValidMove_def getTopColorSequence_def MAX_VIAL_CAPACITY_def
        indexed_def slice_def sliceFrom_def fill_def Let_def)

text \<open>
  Claim C2.  The totals of \<open>getTotalColorCounts\<close> should be the same in every
  configuration reached by valid moves.  After the valid move of vial 0 into the empty
  vial 1 the colour red, counted once before, is not counted at all.
\<close>

theorem executeMove_changes_totals:
  "executeMove \<lparr>vials = [[''red''], []], moves = []\<rparr> 0 1
       = Inr \<lparr>vials = [[], []], moves = [(0, 1)]\<rparr>
   \<and> getTotalColorCounts [[''red''], []] ''red'' = Some (Number 1)
   \<and> getTotalColorCounts [[], []] ''red'' = None"
  by (simp add: executeMove_def isValidMove_def getTopColorSequence_def MAX_VIAL_CAPACITY_def
        indexed_def slice_def sliceFrom_def fill_def Let_def getTotalColorCounts_def
        countColor_def getProperty_def setProperty_def prototypeFunctions_def)


subsection \<open>The search loop without the annotation\<close>

lemma filterE_total:
  "(\<And>x. x \<in> set xs \<Longrightarrow> \<exists>b. p x = Inr b) \<Longrightarrow>
     filterE p xs = Inr (filter (\<lambda>x. p x = Inr True) xs)"
proof (induction xs)
  case Nil
  then show ?case by simp
next
  case (Cons x xs)
  then obtain b where "p x = Inr b" by auto
  with Cons show ?case by simp
qed

lemma mapE_total:
  "(\<And>x. x \<in> set xs \<Longrightarrow> f x = Inr (g x)) \<Longrightarrow> mapE f xs = Inr (map g xs)"
  by (induction xs) simp_all

lemma set_allPairs: "set (allPairs n) = {(from, to). from < n \<and> to < n}"
  by (auto simp: allPairs_def)

lemma isValidMove_in_range:
  "from < length (vials state) \<Longrightarrow> to < length (vials state) \<Longrightarrow>
     \<exists>b. isValidMove state from to = Inr b"
  by (auto simp: isValidMove_def Let_def)

lemma generateNextStates_eq: "generateNextStates state = Inr (nextStates state)"
proof -
  let ?pairs = "allPairs (length (vials state))"
  have f: "filterE (\<lambda>(from, to). isValidMove state from to) ?pairs =
             Inr (filter (\<lambda>(from, to). isValidMove state from to = Inr True) ?pairs)"
    using filterE_total[of ?pairs "\<lambda>(from, to). isValidMove state from to"]
    by (auto simp: set_allPairs isValidMove_in_range case_prod_unfold)
  have m: "mapE (\<lambda>(from, to). executeMove state from to)
             (filter (\<lambda>(from, to). isValidMove state from to = Inr True) ?pairs) =
           Inr (nextStates state)"
    unfolding nextStates_def
    by (rule mapE_total) (auto simp: executeMove_valid)
  show ?thesis
    using f m by (simp add: generateNextStates_def allPairs_def Let_def)
qed

lemma processState_eq:
  "processState initialVials strictMode state visited queue =
     (case findSolved strictMode
             (filter (\<lambda>nextState. toString nextState \<notin> visited) (nextStates state))
             visited queue of
        (None, visited', queue') \<Rightarrow> Inr (None, visited', queue')
      | (Some solution, visited', queue') \<Rightarrow>
          (case enrichMoves (moves solution) initialVials of
             Inl e \<Rightarrow> Inl e
           | Inr enriched \<Rightarrow> Inr (Some enriched, visited', queue')))"
  by (simp add: processState_def generateNextStates_eq)

lemma bfsLoop_searchLoop:
  "bfsLoop initialVials strictMode queue visited statesExplored =
     annotateFound initialVials (searchLoop strictMode queue visited statesExplored)"
proof (induction strictMode queue visited statesExplored rule: searchLoop.induct)
  case (1 strictMode queue visited statesExplored)
  show ?case
  proof (cases "queue \<noteq> [] \<and> statesExplored < MAX_SEARCH_STATES")
    case False
    then show ?thesis
      by (subst bfsLoop.simps, subst searchLoop.simps) (auto simp: annotateFound_def)
  next
    case True
    obtain sol visited' queue' where
      fs: "findSolved strictMode
             (filter (\<lambda>nextState. toString nextState \<notin> visited) (nextStates (hd queue)))
             visited (tl queue) = (sol, visited', queue')"
      by (cases "findSolved strictMode
             (filter (\<lambda>nextState. toString nextState \<notin> visited) (nextStates (hd queue)))
             visited (tl queue)") auto
    show ?thesis
    proof (cases sol)
      case None
      from "1.IH"[OF True fs[symmetric] None refl] have
        "bfsLoop initialVials strictMode queue' visited' (statesExplored + 1) =
           annotateFound initialVials (searchLoop strictMode queue' visited' (statesExplored + 1))" .
      with True fs None show ?thesis
        by (subst bfsLoop.simps, subst searchLoop.simps) (simp add: processState_eq)
    next
      case (Some s)
      with True fs show ?thesis
        by (subst bfsLoop.simps, subst searchLoop.simps)
           (simp add: processState_eq annotateFound_def split: sum.splits)
    qed
  qed
qed

lemma solvePuzzle_rawSolution:
  "solvePuzzle initialVials strictMode =
     (case rawSolution initialVials strictMode of
        None \<Rightarrow> Inr None
      | Some ms \<Rightarrow> (case enrichMoves ms initialVials of
                      Inl e \<Rightarrow> Inl e
                    | Inr enriched \<Rightarrow> Inr (Some enriched)))"
proof -
  let ?s0 = "\<lparr>vials = initialVials, moves = []\<rparr>"
  have e: "enrichMoves [] initialVials = Inr []"
    by (simp add: enrichMoves_def)
  show ?thesis
  proof (cases "isSolved ?s0 strictMode")
    case True
    then show ?thesis
      by (simp add: solvePuzzle_def solveLoop_def rawSolution_def e)
  next
    case False
    obtain r k where r: "searchLoop strictMode [?s0] {toString ?s0} 0 = (r, k)"
      by (cases "searchLoop strictMode [?s0] {toString ?s0} 0") auto
    with False show ?thesis
      by (cases r)
         (simp_all add: solvePuzzle_def solveLoop_def rawSolution_def bfsLoop_searchLoop
            annotateFound_def split: sum.splits)
  qed
qed

subsection \<open>Termination and the exploration budget\<close>





lemma snd_annotateFound [simp]: "snd (annotateFound initialVials r) = snd r"
  by (auto simp: annotateFound_def split: prod.splits option.splits sum.splits)



subsection \<open>The annotator against the search\<close>

lemmas eval_defs =
  rawSolution_def searchLoop.simps nextStates_def allPairs_def isValidMove_def pourVials_def
  pourUnits_def MAX_VIAL_CAPACITY_def MAX_SEARCH_STATES_def Let_def toString_def isSolved_def
  indexed_def getTotalColorCounts_def countColor_def executeMove_def getTopColorSequence_def
  slice_def sliceFrom_def fill_def enrichMoves_def enrichStep_def replayAnnotated_def
  replayAnnotatedMove_def getProperty_def setProperty_def prototypeFunctions_def

text \<open>
  Claim C5.  Replaying the annotated moves should give the configuration that the raw
  moves give with \<open>executeMove\<close>.  For the initial vials red, blue and the empty vial,
  in loose mode, the search returns the one move \<open>(0, 1)\<close>; \<open>executeMove\<close> leaves the
  vials red and empty, the annotated move pours one blue, and its replay leaves the vials
  red and blue.
\<close>

theorem annotated_replay_differs:
  "rawSolution [[''red'', ''blue''], []] False = Some [(0, 1)]
   \<and> executeMoves \<lparr>vials = [[''red'', ''blue''], []], moves = []\<rparr> [(0, 1)]
       = Inr \<lparr>vials = [[''red''], []], moves = [(0, 1)]\<rparr>
   \<and> enrichMoves [(0, 1)] [[''red'', ''blue''], []]
       = Inr [\<lparr>mfrom = 0, mto = 1, mcolor = ''blue'', munits = 1\<rparr>]
   \<and> replayAnnotated [[''red'', ''blue''], []]
         [\<lparr>mfrom = 0, mto = 1, mcolor = ''blue'', munits = 1\<rparr>]
       = [[''red''], [''blue'']]"
  by (simp add: eval_defs)

text \<open>
  Claim C9.  \<open>enrichMoves\<close> should emit one annotated move for every move of the
  sequence the search returns.  For the initial vials below, in loose mode, the search
  returns four moves and \<open>enrichMoves\<close> returns three annotated moves: in its own
  replay vial 2 is full after the second move, the third move pours 0 units and
  \<^verbatim>\<open>slice(0, -0)\<close> empties vial 1, and the fourth move is skipped on the empty source.
\<close>

theorem enrichMoves_drops_move:
  "rawSolution [[''t'', ''u'', ''u'', ''u''], [''p'', ''q'', ''r'', ''s''], []] False
       = Some [(0, 2), (1, 2), (1, 2), (1, 2)]
   \<and> enrichMoves [(0, 2), (1, 2), (1, 2), (1, 2)]
         [[''t'', ''u'', ''u'', ''u''], [''p'', ''q'', ''r'', ''s''], []]
       = Inr [\<lparr>mfrom = 0, mto = 2, mcolor = ''u'', munits = 3\<rparr>,
              \<lparr>mfrom = 1, mto = 2, mcolor = ''s'', munits = 1\<rparr>,
              \<lparr>mfrom = 1, mto = 2, mcolor = ''r'', munits = 0\<rparr>]
   \<and> solvePuzzle [[''t'', ''u'', ''u'', ''u''], [''p'', ''q'', ''r'', ''s''], []] False
       = Inr (Some [\<lparr>mfrom = 0, mto = 2, mcolor = ''u'', munits = 3\<rparr>,
              \<lparr>mfrom = 1, mto = 2, mcolor = ''s'', munits = 1\<rparr>,
              \<lparr>mfrom = 1, mto = 2, mcolor = ''r'', munits = 0\<rparr>])"
  by (simp add: solvePuzzle_rawSolution eval_defs)

subsection \<open>The goal checker\<close>

lemma countColor_other: "a \<noteq> c \<Longrightarrow> countColor m a c = m c"
  by (simp add: countColor_def setProperty_def)

lemma countColor_proto [simp]: "countColor m ''__proto__'' = m"
  by (simp add: countColor_def setProperty_def)

lemma countColor_same:
  "c \<noteq> ''__proto__'' \<Longrightarrow> countColor m c c = Some (orZeroPlusOne (getProperty m c))"
  by (simp add: countColor_def setProperty_def)

lemma take_function:
  assumes "take 9 s = ''function ''"
  shows "s \<noteq> []" and "take 9 (s @ t) = ''function ''"
proof -
  from assms have "length (take 9 s) = 9" by simp
  then have l: "9 \<le> length s" by simp
  then show "s \<noteq> []" by auto
  from l assms show "take 9 (s @ t) = ''function ''" by simp
qed

lemma storedValue_cases:
  "storedValue c v \<longleftrightarrow>
     (c \<notin> set prototypeNames \<and> (\<exists>n. v = Number n)) \<or>
     (c \<in> set prototypeFunctions \<and> (\<exists>s. v = Text s \<and> take 9 s = ''function ''))"
  by (cases v) auto

lemma in_prototypeNames:
  "c \<in> set prototypeNames \<longleftrightarrow> c = ''__proto__'' \<or> c \<in> set prototypeFunctions"
  by (simp add: prototypeNames_def)

lemma countColor_stored:
  assumes inv: "\<forall>c v. m c = Some v \<longrightarrow> storedValue c v"
  shows "\<forall>c v. countColor m a c = Some v \<longrightarrow> storedValue c v"
proof (intro allI impI)
  fix c v assume h: "countColor m a c = Some v"
  show "storedValue c v"
  proof (cases "a = c \<and> c \<noteq> ''__proto__''")
    case False
    then have "countColor m a c = m c"
      by (cases "a = c") (auto simp: countColor_other)
    with h inv show ?thesis by simp
  next
    case True
    with h have v: "v = orZeroPlusOne (getProperty m c)" by (simp add: countColor_same)
    show ?thesis
    proof (cases "m c")
      case None
      with True v show ?thesis
        by (auto simp: getProperty_def in_prototypeNames functionText_def)
    next
      case (Some w)
      with inv have "storedValue c w" by simp
      then consider n where "c \<notin> set prototypeNames" "w = Number n"
        | s where "c \<in> set prototypeFunctions" "w = Text s" "take 9 s = ''function ''"
        unfolding storedValue_cases by blast
      then show ?thesis
      proof cases
        case 1
        with True v Some show ?thesis by (simp add: getProperty_def)
      next
        case 2
        from take_function(1)[OF 2(3)] take_function(2)[OF 2(3), of "''1''"] True v Some 2(1,2)
        show ?thesis by (simp add: getProperty_def)
      qed
    qed
  qed
qed

lemma foldl_countColor_stored:
  "\<forall>c v. m c = Some v \<longrightarrow> storedValue c v \<Longrightarrow>
   \<forall>c v. foldl countColor m vial c = Some v \<longrightarrow> storedValue c v"
proof (induction vial arbitrary: m)
  case Nil
  then show ?case by simp
next
  case (Cons a vial)
  from countColor_stored[OF Cons.prems] have "\<forall>c v. countColor m a c = Some v \<longrightarrow> storedValue c v" .
  from Cons.IH[OF this] show ?case by simp
qed

lemma foldl_foldl_countColor_stored:
  "\<forall>c v. m c = Some v \<longrightarrow> storedValue c v \<Longrightarrow>
   \<forall>c v. foldl (\<lambda>counts vial. foldl countColor counts vial) m vs c = Some v
          \<longrightarrow> storedValue c v"
proof (induction vs arbitrary: m)
  case Nil
  then show ?case by simp
next
  case (Cons vial vs)
  from foldl_countColor_stored[OF Cons.prems]
  have "\<forall>c v. foldl countColor m vial c = Some v \<longrightarrow> storedValue c v" .
  from Cons.IH[OF this] show ?case by simp
qed

lemma getTotalColorCounts_values:
  "getTotalColorCounts vs c = Some v \<Longrightarrow> storedValue c v"
  using foldl_foldl_countColor_stored[of Map.empty vs]
  by (simp add: getTotalColorCounts_def)

lemma toNumber_prototype:
  assumes "c \<in> set prototypeNames"
  shows "toNumber (getProperty (getTotalColorCounts vs) c) = None"
proof (cases "c = ''__proto__''")
  case True
  then show ?thesis by (simp add: getProperty_def)
next
  case False
  with assms have f: "c \<in> set prototypeFunctions" by (simp add: in_prototypeNames)
  show ?thesis
  proof (cases "getTotalColorCounts vs c")
    case None
    with False f show ?thesis by (simp add: getProperty_def)
  next
    case (Some v)
    from getTotalColorCounts_values[OF Some] assms obtain s where "v = Text s"
      unfolding storedValue_cases by blast
    with False Some show ?thesis by (simp add: getProperty_def)
  qed
qed

lemma foldl_countColor:
  assumes "c \<notin> set prototypeNames"
  shows "m c = None \<or> (\<exists>n. m c = Some (Number n)) \<Longrightarrow>
     foldl countColor m vial c =
       (if count_list vial c = 0 then m c
        else Some (Number ((case m c of Some (Number n) \<Rightarrow> n | _ \<Rightarrow> 0) + count_list vial c)))"
proof (induction vial arbitrary: m)
  case Nil
  then show ?case by simp
next
  case (Cons a vial)
  from assms have c: "c \<noteq> ''__proto__''" "c \<notin> set prototypeFunctions"
    by (simp_all add: in_prototypeNames)
  show ?case
  proof (cases "a = c")
    case False
    then have e: "countColor m a c = m c" by (rule countColor_other)
    with Cons.prems have "countColor m a c = None \<or> (\<exists>n. countColor m a c = Some (Number n))"
      by simp
    from Cons.IH[of "countColor m a", OF this] e False show ?thesis by simp
  next
    case True
    from Cons.prems c have e: "countColor m c c
        = Some (Number ((case m c of Some (Number n) \<Rightarrow> n | _ \<Rightarrow> 0) + 1))"
      by (auto simp: countColor_same getProperty_def)
    then have "countColor m c c = None \<or> (\<exists>n. countColor m c c = Some (Number n))" by simp
    from Cons.IH[of "countColor m c", OF this] e True show ?thesis by simp
  qed
qed

lemma foldl_foldl_countColor:
  assumes "c \<notin> set prototypeNames"
  shows "m c = None \<or> (\<exists>n. m c = Some (Number n)) \<Longrightarrow>
     foldl (\<lambda>counts vial. foldl countColor counts vial) m vs c =
       (if totalCountOfColor vs c = 0 then m c
        else Some (Number ((case m c of Some (Number n) \<Rightarrow> n | _ \<Rightarrow> 0)
                           + totalCountOfColor vs c)))"
proof (induction vs arbitrary: m)
  case Nil
  then show ?case by (simp add: totalCountOfColor_def)
next
  case (Cons vial vs)
  let ?m = "foldl countColor m vial"
  have e: "?m c = (if count_list vial c = 0 then m c
        else Some (Number ((case m c of Some (Number n) \<Rightarrow> n | _ \<Rightarrow> 0) + count_list vial c)))"
    using foldl_countColor[of c m vial, OF assms Cons.prems] .
  with Cons.prems have "?m c = None \<or> (\<exists>n. ?m c = Some (Number n))" by auto
  from Cons.IH[of ?m, OF this] e Cons.prems show ?case
    by (auto simp: totalCountOfColor_def)
qed

lemma getTotalColorCounts_eq:
  "c \<notin> set prototypeNames \<Longrightarrow>
   getTotalColorCounts vs c =
     (if totalCountOfColor vs c = 0 then None else Some (Number (totalCountOfColor vs c)))"
  using foldl_foldl_countColor[of c Map.empty vs] by (simp add: getTotalColorCounts_def)

lemma toNumber_getTotalColorCounts:
  "toNumber (getProperty (getTotalColorCounts vs) c) =
     (if c \<in> set prototypeNames \<or> totalCountOfColor vs c = 0 then None
      else Some (totalCountOfColor vs c))"
proof (cases "c \<in> set prototypeNames")
  case True
  then show ?thesis by (simp add: toNumber_prototype)
next
  case False
  then have "c \<noteq> ''__proto__''" "c \<notin> set prototypeFunctions"
    by (simp_all add: in_prototypeNames)
  with False show ?thesis by (simp add: getProperty_def getTotalColorCounts_eq)
qed

lemma totalCountOfColor_pos:
  "i < length vs \<Longrightarrow> c \<in> set (vs ! i) \<Longrightarrow> 0 < totalCountOfColor vs c"
proof -
  assume i: "i < length vs" and c: "c \<in> set (vs ! i)"
  then have "0 < count_list (vs ! i) c" by (metis count_list_0_iff gr0I)
  moreover have "count_list (vs ! i) c \<in> set (map (\<lambda>vial. count_list vial c) vs)"
    using i by auto
  then have "count_list (vs ! i) c \<le> totalCountOfColor vs c"
    unfolding totalCountOfColor_def by (rule member_le_sum_list) simp
  ultimately show ?thesis by linarith
qed

lemma uniqueColors_fst:
  "fst (uniqueColors ps m) \<longleftrightarrow>
     distinct (map (\<lambda>p. hd (fst p)) ps) \<and> (\<forall>p \<in> set ps. hd (fst p) \<notin> fst ` set m)"
proof (induction ps m rule: uniqueColors.induct)
  case (1 colorToVial)
  then show ?case by simp
next
  case (2 vial index rest colorToVial)
  show ?case
  proof (cases "hd vial \<in> set (map fst colorToVial)")
    case True
    then show ?thesis by (simp add: Let_def)
  next
    case False
    have "fst (uniqueColors ((vial, index) # rest) colorToVial)
            = fst (uniqueColors rest (colorToVial @ [(hd vial, index)]))"
      using False by (simp add: Let_def)
    also have "\<dots> \<longleftrightarrow> distinct (map (\<lambda>p. hd (fst p)) rest) \<and>
       (\<forall>p \<in> set rest. hd (fst p) \<notin> fst ` set (colorToVial @ [(hd vial, index)]))"
      using "2.IH"[OF refl False] .
    also have "\<dots> \<longleftrightarrow> distinct (map (\<lambda>p. hd (fst p)) ((vial, index) # rest)) \<and>
       (\<forall>p \<in> set ((vial, index) # rest). hd (fst p) \<notin> fst ` set colorToVial)"
      using False by (auto simp: image_iff)
    finally show ?thesis .
  qed
qed

lemma uniqueColors_snd:
  "fst (uniqueColors ps m) \<Longrightarrow>
     snd (uniqueColors ps m) = m @ map (\<lambda>p. (hd (fst p), snd p)) ps"
proof (induction ps m rule: uniqueColors.induct)
  case (1 colorToVial)
  then show ?case by simp
next
  case (2 vial index rest colorToVial)
  from "2.prems" have nin: "hd vial \<notin> set (map fst colorToVial)"
    by (auto simp: Let_def split: if_splits)
  with "2.prems" have f: "fst (uniqueColors rest (colorToVial @ [(hd vial, index)]))"
    by (simp add: Let_def)
  from "2.IH"[OF refl nin f] nin show ?case by (simp add: Let_def)
qed

lemma distinct_indexed: "distinct (indexed xs)"
  by (simp add: indexed_def distinct_zipI2)

lemma set_indexed: "set (indexed xs) = {(xs ! i, i) | i. i < length xs}"
  by (auto simp: indexed_def set_zip)

lemma isSolved_strict_eq:
  "isSolved state True \<longleftrightarrow>
     (\<forall>vial \<in> set (vials state). vial = [] \<or> (\<forall>c \<in> set vial. c = hd vial)) \<and>
     (\<forall>i < length (vials state). \<forall>j < length (vials state).
         vials state ! i \<noteq> [] \<and> vials state ! j \<noteq> [] \<and>
         hd (vials state ! i) = hd (vials state ! j) \<longrightarrow> i = j) \<and>
     (\<forall>i < length (vials state). vials state ! i \<noteq> [] \<longrightarrow>
         hd (vials state ! i) \<notin> set prototypeNames \<and>
         length (vials state ! i)
           = min (totalCountOfColor (vials state) (hd (vials state ! i))) 4)"
  (is "_ \<longleftrightarrow> ?L \<and> ?U \<and> ?F")
proof -
  let ?vs = "vials state"
  let ?ne = "filter (\<lambda>(vial, index). length vial > 0) (indexed ?vs)"
  have basic: "list_all (\<lambda>vial. length vial = 0 \<or> list_all (\<lambda>color. color = hd vial) vial) ?vs
                 \<longleftrightarrow> ?L"
    by (auto simp: list_all_iff)
  have set_ne: "set ?ne = {(?vs ! i, i) | i. i < length ?vs \<and> ?vs ! i \<noteq> []}"
    by (auto simp: set_indexed)
  have dne: "distinct ?ne" by (simp add: distinct_indexed)
  have uniq: "distinct (map (\<lambda>(vial, index). hd vial) ?ne) \<longleftrightarrow> ?U"
  proof
    assume d: "distinct (map (\<lambda>(vial, index). hd vial) ?ne)"
    then have inj: "inj_on (\<lambda>(vial, index). hd vial) (set ?ne)"
      by (simp add: distinct_map)
    show ?U
    proof (intro allI impI)
      fix i j assume i: "i < length ?vs" and j: "j < length ?vs"
        and h: "?vs ! i \<noteq> [] \<and> ?vs ! j \<noteq> [] \<and> hd (?vs ! i) = hd (?vs ! j)"
      then have "(?vs ! i, i) \<in> set ?ne" "(?vs ! j, j) \<in> set ?ne"
        unfolding set_ne by auto
      with inj h have "(?vs ! i, i) = (?vs ! j, j)"
        unfolding inj_on_def by fastforce
      then show "i = j" by simp
    qed
  next
    assume u: ?U
    have "inj_on (\<lambda>(vial, index). hd vial) (set ?ne)"
      unfolding inj_on_def set_ne using u by auto
    with dne show "distinct (map (\<lambda>(vial, index). hd vial) ?ne)"
      by (simp add: distinct_map)
  qed
  have fillc: "list_all (\<lambda>(color, vialIndex).
                 let vial = ?vs ! vialIndex;
                     expectedCount = map_option (\<lambda>n. min n MAX_VIAL_CAPACITY)
                                       (toNumber (getProperty (getTotalColorCounts ?vs) color))
                 in Some (length vial) = expectedCount)
               (map (\<lambda>(vial, index). (hd vial, index)) ?ne) \<longleftrightarrow> ?F"
  proof -
    have pos: "\<And>i. i < length ?vs \<Longrightarrow> ?vs ! i \<noteq> [] \<Longrightarrow>
                 totalCountOfColor ?vs (hd (?vs ! i)) \<noteq> 0"
      using totalCountOfColor_pos[of _ ?vs] by (metis hd_in_set less_numeral_extra(3))
    show ?thesis
      unfolding list_all_iff set_map set_ne
      by (auto simp: toNumber_getTotalColorCounts pos MAX_VIAL_CAPACITY_def Let_def)
  qed
  obtain u m where um: "uniqueColors ?ne [] = (u, m)"
    by (cases "uniqueColors ?ne []") auto
  have u: "u \<longleftrightarrow> distinct (map (\<lambda>(vial, index). hd vial) ?ne)"
    using uniqueColors_fst[of ?ne "[]"] um by (simp add: case_prod_unfold)
  have m: "u \<Longrightarrow> m = map (\<lambda>(vial, index). (hd vial, index)) ?ne"
    using uniqueColors_snd[of ?ne "[]"] um by (simp add: case_prod_unfold)
  show ?thesis
  proof (cases u)
    case True
    with m have "m = map (\<lambda>(vial, index). (hd vial, index)) ?ne" by simp
    with True um show ?thesis
      using basic uniq fillc u unfolding isSolved_def Let_def by simp
  next
    case False
    with um show ?thesis
      using basic uniq u unfolding isSolved_def Let_def by simp
  qed
qed


text \<open>
  Claim C7, amended.  For a configuration in which no colour is the name of a property of
  \<^verbatim>\<open>Object.prototype\<close>, \<open>isSolved\<close> in strict mode is true exactly when every vial is
  empty or monochrome, and every colour that appears anywhere is in exactly one vial,
  whose length is the smaller of the total count of the colour and 4.  For every
  configuration, one in which the total count of a colour exceeds 4 and a vial holding it
  has not exactly 4 entries is rejected.
\<close>

theorem isSolved_strict_spec:
  "((\<forall>vial \<in> set (vials state). \<forall>c \<in> set vial. c \<notin> set prototypeNames) \<longrightarrow>
    (isSolved state True \<longleftrightarrow>
      (\<forall>vial \<in> set (vials state). vial = [] \<or> (\<exists>c. set vial = {c})) \<and>
      (\<forall>c. (\<exists>vial \<in> set (vials state). c \<in> set vial) \<longrightarrow>
         (\<exists>!i. i < length (vials state) \<and> c \<in> set (vials state ! i)) \<and>
         (\<forall>i < length (vials state). c \<in> set (vials state ! i) \<longrightarrow>
            length (vials state ! i) = min (totalCountOfColor (vials state) c) 4))))
   \<and> (\<forall>c i. i < length (vials state) \<and> c \<in> set (vials state ! i) \<and>
          4 < totalCountOfColor (vials state) c \<and> length (vials state ! i) \<noteq> 4
          \<longrightarrow> \<not> isSolved state True)"
proof -
  let ?vs = "vials state"
  let ?L = "\<forall>vial \<in> set ?vs. vial = [] \<or> (\<forall>c \<in> set vial. c = hd vial)"
  let ?L' = "\<forall>vial \<in> set ?vs. vial = [] \<or> (\<exists>c. set vial = {c})"
  let ?U = "\<forall>i < length ?vs. \<forall>j < length ?vs.
         ?vs ! i \<noteq> [] \<and> ?vs ! j \<noteq> [] \<and> hd (?vs ! i) = hd (?vs ! j) \<longrightarrow> i = j"
  let ?F = "\<forall>i < length ?vs. ?vs ! i \<noteq> [] \<longrightarrow>
         length (?vs ! i) = min (totalCountOfColor ?vs (hd (?vs ! i))) 4"
  let ?F' = "\<forall>i < length ?vs. ?vs ! i \<noteq> [] \<longrightarrow>
         hd (?vs ! i) \<notin> set prototypeNames \<and>
         length (?vs ! i) = min (totalCountOfColor ?vs (hd (?vs ! i))) 4"
  let ?P = "\<forall>vial \<in> set ?vs. \<forall>c \<in> set vial. c \<notin> set prototypeNames"
  let ?S = "\<forall>c. (\<exists>vial \<in> set ?vs. c \<in> set vial) \<longrightarrow>
         (\<exists>!i. i < length ?vs \<and> c \<in> set (?vs ! i)) \<and>
         (\<forall>i < length ?vs. c \<in> set (?vs ! i) \<longrightarrow>
            length (?vs ! i) = min (totalCountOfColor ?vs c) 4)"
  have mono: "vial = [] \<or> (\<forall>c \<in> set vial. c = hd vial) \<longleftrightarrow> vial = [] \<or> (\<exists>c. set vial = {c})"
    for vial :: vial
  proof (cases vial)
    case Nil
    then show ?thesis by simp
  next
    case (Cons a as)
    then show ?thesis by auto
  qed
  have LL: "?L \<longleftrightarrow> ?L'" using mono by simp
  have US: "?U \<and> ?F \<longleftrightarrow> ?S" if L: ?L
  proof -
    have mem: "c \<in> set (?vs ! i) \<longleftrightarrow> ?vs ! i \<noteq> [] \<and> hd (?vs ! i) = c"
      if "i < length ?vs" for i c
    proof -
      from that have "?vs ! i \<in> set ?vs" by simp
      with L have "?vs ! i = [] \<or> (\<forall>c \<in> set (?vs ! i). c = hd (?vs ! i))" by blast
      then show ?thesis by (cases "?vs ! i") auto
    qed
    show ?thesis
    proof
      assume UF: "?U \<and> ?F"
      show ?S
      proof (intro allI impI)
        fix c assume "\<exists>vial \<in> set ?vs. c \<in> set vial"
        then obtain vial where "vial \<in> set ?vs" "c \<in> set vial" by blast
        then obtain i where i: "i < length ?vs" "c \<in> set (?vs ! i)"
          by (metis in_set_conv_nth)
        have one: "\<exists>!i. i < length ?vs \<and> c \<in> set (?vs ! i)"
        proof (rule ex1I[of _ i])
          show "i < length ?vs \<and> c \<in> set (?vs ! i)" using i by simp
        next
          fix j assume j: "j < length ?vs \<and> c \<in> set (?vs ! j)"
          with i mem have "?vs ! i \<noteq> [] \<and> ?vs ! j \<noteq> [] \<and> hd (?vs ! i) = hd (?vs ! j)"
            by (metis (no_types))
          with UF i j show "j = i" by blast
        qed
        have fillc: "\<forall>j < length ?vs. c \<in> set (?vs ! j) \<longrightarrow>
            length (?vs ! j) = min (totalCountOfColor ?vs c) 4"
        proof (intro allI impI)
          fix j assume j: "j < length ?vs" "c \<in> set (?vs ! j)"
          with mem have "?vs ! j \<noteq> []" "hd (?vs ! j) = c" by blast+
          with UF j show "length (?vs ! j) = min (totalCountOfColor ?vs c) 4" by blast
        qed
        from one fillc show "(\<exists>!i. i < length ?vs \<and> c \<in> set (?vs ! i)) \<and>
         (\<forall>i < length ?vs. c \<in> set (?vs ! i) \<longrightarrow>
            length (?vs ! i) = min (totalCountOfColor ?vs c) 4)" by simp
      qed
    next
      assume S: ?S
      have U: ?U
      proof (intro allI impI)
        fix i j assume i: "i < length ?vs" and j: "j < length ?vs"
          and h: "?vs ! i \<noteq> [] \<and> ?vs ! j \<noteq> [] \<and> hd (?vs ! i) = hd (?vs ! j)"
        let ?c = "hd (?vs ! i)"
        from i j h mem have ci: "?c \<in> set (?vs ! i)" and cj: "?c \<in> set (?vs ! j)"
          by (metis (no_types))+
        from i ci have "\<exists>vial \<in> set ?vs. ?c \<in> set vial" using nth_mem by blast
        with S have "\<exists>!k. k < length ?vs \<and> ?c \<in> set (?vs ! k)" by blast
        with i j ci cj show "i = j" by blast
      qed
      have F: ?F
      proof (intro allI impI)
        fix i assume i: "i < length ?vs" and ne: "?vs ! i \<noteq> []"
        let ?c = "hd (?vs ! i)"
        from i ne mem have ci: "?c \<in> set (?vs ! i)" by blast
        from i ci have "\<exists>vial \<in> set ?vs. ?c \<in> set vial" using nth_mem by blast
        with S i ci show "length (?vs ! i) = min (totalCountOfColor ?vs ?c) 4" by blast
      qed
      from U F show "?U \<and> ?F" by simp
    qed
  qed
  have e: "isSolved state True \<longleftrightarrow> ?L \<and> ?U \<and> ?F'"
    by (rule isSolved_strict_eq)
  have FF: "?F" if "?F'"
    using that by simp
  have FF': "?F'" if F: "?F" and P: "?P"
  proof (intro allI impI)
    fix i assume i: "i < length ?vs" and ne: "?vs ! i \<noteq> []"
    from i have "?vs ! i \<in> set ?vs" by simp
    moreover from ne have "hd (?vs ! i) \<in> set (?vs ! i)" by simp
    ultimately have "hd (?vs ! i) \<notin> set prototypeNames" using P by blast
    moreover from F i ne
    have "length (?vs ! i) = min (totalCountOfColor ?vs (hd (?vs ! i))) 4" by simp
    ultimately show "hd (?vs ! i) \<notin> set prototypeNames \<and>
         length (?vs ! i) = min (totalCountOfColor ?vs (hd (?vs ! i))) 4" by (rule conjI)
  qed
  have LUF: "?L \<and> ?U \<and> ?F \<longleftrightarrow> ?L' \<and> ?S"
  proof
    assume a: "?L \<and> ?U \<and> ?F"
    then have L: ?L by (rule conjunct1)
    from a have UF: "?U \<and> ?F" by (rule conjunct2)
    from US[OF L] UF have S: ?S by (rule iffD1)
    from LL L have L': ?L' by (rule iffD1)
    from L' S show "?L' \<and> ?S" by (rule conjI)
  next
    assume b: "?L' \<and> ?S"
    then have L': ?L' by (rule conjunct1)
    from b have S: ?S by (rule conjunct2)
    from LL L' have L: ?L by (rule iffD2)
    from US[OF L] S have UF: "?U \<and> ?F" by (rule iffD2)
    from L UF show "?L \<and> ?U \<and> ?F" by (rule conjI)
  qed
  have sound: "?L' \<and> ?S" if s: "isSolved state True"
  proof -
    from e s have a: "?L \<and> ?U \<and> ?F'" by (rule iffD1)
    then have L: ?L by (rule conjunct1)
    from a have "?U \<and> ?F'" by (rule conjunct2)
    then have U: ?U and F': ?F' by (rule conjunct1, rule conjunct2)
    from F' have F: ?F by (rule FF)
    from L U F have "?L \<and> ?U \<and> ?F" by (intro conjI)
    with LUF show ?thesis by (rule iffD1)
  qed
  have complete: "isSolved state True" if P: ?P and b: "?L' \<and> ?S"
  proof -
    from LUF b have a: "?L \<and> ?U \<and> ?F" by (rule iffD2)
    then have L: ?L by (rule conjunct1)
    from a have "?U \<and> ?F" by (rule conjunct2)
    then have U: ?U and F: ?F by (rule conjunct1, rule conjunct2)
    from F P have F': ?F' by (rule FF')
    from L U F' have "?L \<and> ?U \<and> ?F'" by (intro conjI)
    with e show ?thesis by (rule iffD2)
  qed
  have main: "?P \<longrightarrow> (isSolved state True \<longleftrightarrow> ?L' \<and> ?S)"
  proof (intro impI iffI)
    assume "isSolved state True"
    then show "?L' \<and> ?S" by (rule sound)
  next
    assume ?P and "?L' \<and> ?S"
    then show "isSolved state True" by (rule complete)
  qed
  have part: "\<forall>c i. i < length ?vs \<and> c \<in> set (?vs ! i) \<and>
          4 < totalCountOfColor ?vs c \<and> length (?vs ! i) \<noteq> 4
          \<longrightarrow> \<not> isSolved state True"
  proof (intro allI impI notI)
    fix c i
    assume h: "i < length ?vs \<and> c \<in> set (?vs ! i) \<and>
          4 < totalCountOfColor ?vs c \<and> length (?vs ! i) \<noteq> 4"
      and s: "isSolved state True"
    from h have ex: "\<exists>vial \<in> set ?vs. c \<in> set vial" using nth_mem by blast
    from s have "?L' \<and> ?S" by (rule sound)
    then have ?S by (rule conjunct2)
    then have "(\<exists>vial \<in> set ?vs. c \<in> set vial) \<longrightarrow>
         (\<exists>!i. i < length ?vs \<and> c \<in> set (?vs ! i)) \<and>
         (\<forall>i < length ?vs. c \<in> set (?vs ! i) \<longrightarrow>
            length (?vs ! i) = min (totalCountOfColor ?vs c) 4)" by (rule spec)
    with ex have "\<forall>i < length ?vs. c \<in> set (?vs ! i) \<longrightarrow>
            length (?vs ! i) = min (totalCountOfColor ?vs c) 4" by simp
    with h have "length (?vs ! i) = min (totalCountOfColor ?vs c) 4" by simp
    with h show False by (auto simp: min_def)
  qed
  from main part show ?thesis by (rule conjI)
qed

theorem isSolved_strict_spec_witness:
  "list_all (list_all (\<lambda>c. c \<notin> set prototypeNames)) [[''red'', ''red''], []]
   \<and> isSolved \<lparr>vials = [[''red'', ''red''], []], moves = []\<rparr> True
   \<and> length [''red'', ''red''] = min (totalCountOfColor [[''red'', ''red''], []] ''red'') 4
   \<and> totalCountOfColor [[''red'', ''red'', ''red''], [''red'', ''red'']] ''red'' = 5
   \<and> \<not> isSolved \<lparr>vials = [[''red'', ''red'', ''red''], [''red'', ''red'']], moves = []\<rparr> True"
proof -
  let ?s = "\<lparr>vials = [[''red'', ''red'', ''red''], [''red'', ''red'']], moves = []\<rparr>"
  let ?t = "\<lparr>vials = [[''red'', ''red''], []], moves = []\<rparr>"
  have p0: "list_all (list_all (\<lambda>c. c \<notin> set prototypeNames)) [[''red'', ''red''], []]"
    by (simp add: prototypeNames_def prototypeFunctions_def)
  then have p: "\<forall>vial \<in> set (vials ?t). \<forall>c \<in> set vial. c \<notin> set prototypeNames"
    by simp
  have st: "isSolved ?t True"
    by (simp add: eval_defs)
  from isSolved_strict_spec[of ?t, THEN conjunct1, THEN mp, OF p] st
  have "(\<forall>vial \<in> set (vials ?t). vial = [] \<or> (\<exists>c. set vial = {c})) \<and>
      (\<forall>c. (\<exists>vial \<in> set (vials ?t). c \<in> set vial) \<longrightarrow>
         (\<exists>!i. i < length (vials ?t) \<and> c \<in> set (vials ?t ! i)) \<and>
         (\<forall>i < length (vials ?t). c \<in> set (vials ?t ! i) \<longrightarrow>
            length (vials ?t ! i) = min (totalCountOfColor (vials ?t) c) 4))"
    by (rule iffD1)
  then have "\<forall>c. (\<exists>vial \<in> set (vials ?t). c \<in> set vial) \<longrightarrow>
         (\<exists>!i. i < length (vials ?t) \<and> c \<in> set (vials ?t ! i)) \<and>
         (\<forall>i < length (vials ?t). c \<in> set (vials ?t ! i) \<longrightarrow>
            length (vials ?t ! i) = min (totalCountOfColor (vials ?t) c) 4)"
    by (rule conjunct2)
  then have "(\<exists>vial \<in> set (vials ?t). ''red'' \<in> set vial) \<longrightarrow>
         (\<exists>!i. i < length (vials ?t) \<and> ''red'' \<in> set (vials ?t ! i)) \<and>
         (\<forall>i < length (vials ?t). ''red'' \<in> set (vials ?t ! i) \<longrightarrow>
            length (vials ?t ! i) = min (totalCountOfColor (vials ?t) ''red'') 4)"
    by (rule spec)
  moreover have "\<exists>vial \<in> set (vials ?t). ''red'' \<in> set vial" by simp
  ultimately have "\<forall>i < length (vials ?t). ''red'' \<in> set (vials ?t ! i) \<longrightarrow>
            length (vials ?t ! i) = min (totalCountOfColor (vials ?t) ''red'') 4"
    by simp
  then have "0 < length (vials ?t) \<longrightarrow> ''red'' \<in> set (vials ?t ! 0) \<longrightarrow>
            length (vials ?t ! 0) = min (totalCountOfColor (vials ?t) ''red'') 4"
    by (rule spec)
  then have l: "length [''red'', ''red''] = min (totalCountOfColor [[''red'', ''red''], []] ''red'') 4"
    by simp
  have t: "totalCountOfColor (vials ?s) ''red'' = 5"
    by (simp add: totalCountOfColor_def)
  then have h: "0 < length (vials ?s) \<and> ''red'' \<in> set (vials ?s ! 0) \<and>
      4 < totalCountOfColor (vials ?s) ''red'' \<and> length (vials ?s ! 0) \<noteq> 4"
    by simp
  from isSolved_strict_spec[of ?s, THEN conjunct2, rule_format, OF h]
  have n: "\<not> isSolved ?s True" .
  from t have t': "totalCountOfColor [[''red'', ''red'', ''red''], [''red'', ''red'']] ''red'' = 5"
    by simp
  show ?thesis by (intro conjI p0 st l t' n)
qed

text \<open>
  The counterexample to claim C7 as it is stated, for every configuration.  The single
  vial of the configuration below holds one unit of the colour \<^verbatim>\<open>constructor\<close>: the vial
  is monochrome, the colour is in exactly one vial, and the length of the vial, 1, is the
  smaller of the total count of the colour, 1, and 4.  The record of counts reads the
  function \<^verbatim>\<open>Object\<close> under that name, stores the text of the function followed by
  \<^verbatim>\<open>1\<close>, \<^verbatim>\<open>Math.min\<close> makes \<^verbatim>\<open>NaN\<close> of it, and \<open>isSolved\<close> is false.
\<close>

theorem isSolved_strict_rejects_constructor:
  "\<not> isSolved \<lparr>vials = [[''constructor'']], moves = []\<rparr> True
   \<and> getTotalColorCounts [[''constructor'']] ''constructor''
       = Some (Text ''function Object() { [native code] }1'')
   \<and> set [''constructor''] = {''constructor''}
   \<and> totalCountOfColor [[''constructor'']] ''constructor'' = 1
   \<and> length [''constructor''] = min (totalCountOfColor [[''constructor'']] ''constructor'') 4"
  by (simp add: eval_defs functionText_def totalCountOfColor_def)

section \<open>The shortest-path property of the search\<close>

subsection \<open>The state key is injective on colours without separators\<close>








subsection \<open>Moves on configurations\<close>









lemma length_pourVials [simp]: "length (pourVials vs from to) = length vs"
  by (simp add: pourVials_def Let_def)




subsection \<open>The breadth-first invariant\<close>







subsection \<open>The annotator emits at most one move per input move\<close>




subsection \<open>The search returns a shortest solution\<close>





lemma toString_collision_bar:
  "solvePuzzle [[''a|a'', ''a''], [''a''], [''a'', ''a|a'']] False
       = Inr (Some [\<lparr>mfrom = 0, mto = 1, mcolor = ''a'', munits = 1\<rparr>,
                    \<lparr>mfrom = 0, mto = 2, mcolor = ''a|a'', munits = 1\<rparr>,
                    \<lparr>mfrom = 2, mto = 0, mcolor = ''a|a'', munits = 2\<rparr>])
   \<and> executeMoves \<lparr>vials = [[''a|a'', ''a''], [''a''], [''a'', ''a|a'']], moves = []\<rparr>
         [(0, 1), (2, 0)]
       = Inr \<lparr>vials = [[''a|a'', ''a|a''], [''a'', ''a''], [''a'']], moves = [(0, 1), (2, 0)]\<rparr>
   \<and> isSolved \<lparr>vials = [[''a|a'', ''a|a''], [''a'', ''a''], [''a'']],
                 moves = [(0, 1), (2, 0)]\<rparr> False"
  by (simp add: solvePuzzle_rawSolution eval_defs)

lemma toString_collision_comma:
  "solvePuzzle [[''a'', ''a'', ''a,a''], [''a,a'', ''a''], [''a,a'', ''a'']] False
       = Inr (Some [\<lparr>mfrom = 1, mto = 2, mcolor = ''a'', munits = 1\<rparr>,
                    \<lparr>mfrom = 0, mto = 1, mcolor = ''a,a'', munits = 1\<rparr>,
                    \<lparr>mfrom = 0, mto = 2, mcolor = ''a'', munits = 1\<rparr>,
                    \<lparr>mfrom = 2, mto = 0, mcolor = ''a'', munits = 3\<rparr>])
   \<and> executeMoves
         \<lparr>vials = [[''a'', ''a'', ''a,a''], [''a,a'', ''a''], [''a,a'', ''a'']], moves = []\<rparr>
         [(1, 2), (0, 1), (2, 0)]
       = Inr \<lparr>vials = [[''a'', ''a'', ''a'', ''a''], [''a,a'', ''a,a''], [''a,a'']],
              moves = [(1, 2), (0, 1), (2, 0)]\<rparr>
   \<and> isSolved \<lparr>vials = [[''a'', ''a'', ''a'', ''a''], [''a,a'', ''a,a''], [''a,a'']],
                 moves = [(1, 2), (0, 1), (2, 0)]\<rparr> False"
  by (simp add: solvePuzzle_rawSolution eval_defs)

text \<open>
  A colour that is the name of a property of \<^verbatim>\<open>Object.prototype\<close> is within the
  condition of the theorem.  With \<^verbatim>\<open>constructor\<close> the strict goal check rejects the
  configuration that the move \<open>(0, 1)\<close> reaches (the count of the colour is not a number),
  and the search goes on to the two empty vials that the move \<open>(1, 0)\<close> leaves.
\<close>

lemma solvePuzzle_constructor:
  "solvePuzzle [[''constructor'', ''constructor''], [''constructor'', ''constructor'']] True
     = Inr (Some [\<lparr>mfrom = 0, mto = 1, mcolor = ''constructor'', munits = 2\<rparr>,
                  \<lparr>mfrom = 1, mto = 0, mcolor = ''constructor'', munits = 4\<rparr>])
   \<and> \<not> isSolved \<lparr>vials = [[], [''constructor'', ''constructor'', ''constructor'',
                                  ''constructor'']], moves = [(0, 1)]\<rparr> True
   \<and> isSolved \<lparr>vials = [[], []], moves = [(0, 1), (1, 0)]\<rparr> True"
  by (simp add: solvePuzzle_rawSolution eval_defs functionText_def numeral_2_eq_2)

end
